theory Spec2Isabelle
  imports Main "HOL-Library.Word" "HOL-Library.Sublist"
begin

section \<open>JavaScript strings\<close>

text \<open>
  A JavaScript string is a sequence of 16-bit code units. The string methods that
  \<^verbatim>\<open>handleCommand\<close> of \<^verbatim>\<open>src/App.tsx\<close> calls are modelled on such sequences:
  \<^verbatim>\<open>includes\<close>, \<^verbatim>\<open>replace\<close> (with a string and with the regular expression of the
  source), \<^verbatim>\<open>trim\<close> and \<^verbatim>\<open>encodeURIComponent\<close>, the last one with its
  \<^verbatim>\<open>URIError\<close>.
\<close>

type_synonym code_unit = "16 word"
type_synonym jsstring = "code_unit list"

text \<open>A string literal of the source, all of whose characters are ASCII.\<close>

definition js :: "string \<Rightarrow> jsstring" where
  "js cs = map (\<lambda>c. of_nat (of_char c)) cs"

text \<open>
  \<^verbatim>\<open>s.includes(p)\<close>: some position of \<open>s\<close> starts an occurrence of \<open>p\<close>. The
  positions are tried from the left, the end of the string included (the empty
  string occurs there).
\<close>

fun str_includes :: "'a list \<Rightarrow> 'a list \<Rightarrow> bool" where
  "str_includes [] p = (p = [])"
| "str_includes (c # cs) p = (prefix p (c # cs) \<or> str_includes cs p)"

text \<open>
  \<^verbatim>\<open>s.replace(p, r)\<close> with a string pattern: the leftmost occurrence of \<open>p\<close> is
  replaced, the rest of the string is kept. The replacement strings of the source
  are empty, so the \<^verbatim>\<open>$\<close> patterns of a replacement string never arise.
\<close>

fun replace_str :: "'a list \<Rightarrow> 'a list \<Rightarrow> 'a list \<Rightarrow> 'a list" where
  "replace_str [] p r = (if p = [] then r else [])"
| "replace_str (c # cs) p r =
     (if prefix p (c # cs) then r @ drop (length p) (c # cs)
      else c # replace_str cs p r)"

text \<open>
  The regular expression \<^verbatim>\<open>/what is|who is|what are/i\<close>: a list of literal
  alternatives, matched ignoring case, without the global flag. Without the
  \<^verbatim>\<open>u\<close> flag a character is canonicalized by its upper case, except that a
  code unit from 128 on is never mapped below 128; so a code unit matches an ASCII
  character of the pattern exactly when it is ASCII itself and equal to it up to
  the case of the letters a to z.
\<close>

definition canonicalize_ascii :: "code_unit \<Rightarrow> code_unit" where
  "canonicalize_ascii c = (if 0x61 \<le> c \<and> c \<le> 0x7A then c - 0x20 else c)"

definition char_matches_ci :: "code_unit \<Rightarrow> code_unit \<Rightarrow> bool" where
  "char_matches_ci p c = (c < 0x80 \<and> canonicalize_ascii c = canonicalize_ascii p)"

fun literal_matches_ci :: "jsstring \<Rightarrow> jsstring \<Rightarrow> bool" where
  "literal_matches_ci [] s = True"
| "literal_matches_ci (p # ps) [] = False"
| "literal_matches_ci (p # ps) (c # cs) = (char_matches_ci p c \<and> literal_matches_ci ps cs)"

text \<open>The alternatives are tried in order; the result is the length of the match.\<close>

fun match_alternatives :: "jsstring list \<Rightarrow> jsstring \<Rightarrow> nat option" where
  "match_alternatives [] s = None"
| "match_alternatives (a # as) s =
     (if literal_matches_ci a s then Some (length a) else match_alternatives as s)"

fun replace_regex :: "jsstring \<Rightarrow> jsstring list \<Rightarrow> jsstring \<Rightarrow> jsstring" where
  "replace_regex [] alts r = (case match_alternatives alts [] of Some n \<Rightarrow> r | None \<Rightarrow> [])"
| "replace_regex (c # cs) alts r =
     (case match_alternatives alts (c # cs) of
        Some n \<Rightarrow> r @ drop n (c # cs)
      | None \<Rightarrow> c # replace_regex cs alts r)"

text \<open>
  \<^verbatim>\<open>s.trim()\<close> removes the white space and the line terminators of ECMAScript
  from both ends: TAB, LF, VT, FF, CR, the space, the no-break space, the
  byte order mark and the other space separators of Unicode.
\<close>

definition is_white_space :: "code_unit \<Rightarrow> bool" where
  "is_white_space c =
     (c = 0x09 \<or> c = 0x0A \<or> c = 0x0B \<or> c = 0x0C \<or> c = 0x0D \<or> c = 0x20 \<or> c = 0xA0
      \<or> c = 0x1680 \<or> (0x2000 \<le> c \<and> c \<le> 0x200A) \<or> c = 0x2028 \<or> c = 0x2029
      \<or> c = 0x202F \<or> c = 0x205F \<or> c = 0x3000 \<or> c = 0xFEFF)"

definition trim :: "jsstring \<Rightarrow> jsstring" where
  "trim s = rev (dropWhile is_white_space (rev (dropWhile is_white_space s)))"

subsection \<open>encodeURIComponent\<close>

text \<open>
  The characters that \<^verbatim>\<open>encodeURIComponent\<close> leaves as they are: the ASCII
  letters and digits and \<^verbatim>\<open>- _ . ! ~ * ' ( )\<close>. Every other code point is
  encoded in UTF-8 and each octet written as \<^verbatim>\<open>%XX\<close> in upper-case hexadecimal.
  A surrogate that is not part of a pair raises \<^verbatim>\<open>URIError\<close>.
\<close>

datatype js_error = URIError | TypeError

definition is_lead_surrogate :: "code_unit \<Rightarrow> bool" where
  "is_lead_surrogate c = (0xD800 \<le> c \<and> c \<le> 0xDBFF)"

definition is_trail_surrogate :: "code_unit \<Rightarrow> bool" where
  "is_trail_surrogate c = (0xDC00 \<le> c \<and> c \<le> 0xDFFF)"

definition is_surrogate :: "code_unit \<Rightarrow> bool" where
  "is_surrogate c = (is_lead_surrogate c \<or> is_trail_surrogate c)"

definition uri_unreserved :: "code_unit \<Rightarrow> bool" where
  "uri_unreserved c =
     ((0x41 \<le> c \<and> c \<le> 0x5A) \<or> (0x61 \<le> c \<and> c \<le> 0x7A) \<or> (0x30 \<le> c \<and> c \<le> 0x39)
      \<or> c = 0x2D \<or> c = 0x5F \<or> c = 0x2E \<or> c = 0x21 \<or> c = 0x7E \<or> c = 0x2A
      \<or> c = 0x27 \<or> c = 0x28 \<or> c = 0x29)"

definition code_point :: "code_unit \<Rightarrow> code_unit \<Rightarrow> nat" where
  "code_point lead trail = 0x10000 + (unat lead - 0xD800) * 0x400 + (unat trail - 0xDC00)"

definition utf8 :: "nat \<Rightarrow> nat list" where
  "utf8 cp =
     (if cp < 0x80 then [cp]
      else if cp < 0x800 then [0xC0 + cp div 0x40, 0x80 + cp mod 0x40]
      else if cp < 0x10000 then
        [0xE0 + cp div 0x1000, 0x80 + (cp div 0x40) mod 0x40, 0x80 + cp mod 0x40]
      else
        [0xF0 + cp div 0x40000, 0x80 + (cp div 0x1000) mod 0x40,
         0x80 + (cp div 0x40) mod 0x40, 0x80 + cp mod 0x40])"

definition hex_digit :: "nat \<Rightarrow> code_unit" where
  "hex_digit d = (if d < 10 then of_nat (0x30 + d) else of_nat (0x41 + (d - 10)))"

definition percent_octet :: "nat \<Rightarrow> jsstring" where
  "percent_octet b = [0x25, hex_digit (b div 16), hex_digit (b mod 16)]"

definition percent_encode :: "nat \<Rightarrow> jsstring" where
  "percent_encode cp = concat (map percent_octet (utf8 cp))"

fun encodeURIComponent :: "jsstring \<Rightarrow> js_error + jsstring" where
  "encodeURIComponent [] = Inr []"
| "encodeURIComponent (c # cs) =
     (if uri_unreserved c then
        (case encodeURIComponent cs of Inl e \<Rightarrow> Inl e | Inr r \<Rightarrow> Inr (c # r))
      else if is_lead_surrogate c then
        (case cs of
           [] \<Rightarrow> Inl URIError
         | d # ds \<Rightarrow>
             if is_trail_surrogate d then
               (case encodeURIComponent ds of
                  Inl e \<Rightarrow> Inl e
                | Inr r \<Rightarrow> Inr (percent_encode (code_point c d) @ r))
             else Inl URIError)
      else if is_trail_surrogate c then Inl URIError
      else
        (case encodeURIComponent cs of
           Inl e \<Rightarrow> Inl e
         | Inr r \<Rightarrow> Inr (percent_encode (unat c) @ r)))"

text \<open>
  A string without an unpaired surrogate: text, as a speech recognition engine
  delivers it. On such a string \<^verbatim>\<open>encodeURIComponent\<close> returns.
\<close>

fun well_formed :: "jsstring \<Rightarrow> bool" where
  "well_formed [] = True"
| "well_formed [c] = (\<not> is_lead_surrogate c \<and> \<not> is_trail_surrogate c)"
| "well_formed (c # d # cs) =
     (if is_lead_surrogate c then is_trail_surrogate d \<and> well_formed cs
      else \<not> is_trail_surrogate c \<and> well_formed (d # cs))"

section \<open>The component's state and its environment\<close>

text \<open>
  The state of the \<^verbatim>\<open>App\<close> component (its \<^verbatim>\<open>useState\<close> cells that the command
  handling reads or writes) together with a log of the calls it makes to the
  browser: \<^verbatim>\<open>window.open\<close>, \<^verbatim>\<open>speechSynthesis.speak\<close>, the beeps and the
  \<^verbatim>\<open>stop()\<close> calls on a recognition object.
\<close>

datatype speaker = User | Assistant

record CommandHistory =
  type :: speaker
  message :: jsstring
  timestamp :: jsstring

datatype permission = Granted | Denied | Prompt

datatype OscillatorType = Sine | Square

text \<open>
  \<open>StateRecognition\<close> is the call \<^verbatim>\<open>recognition?.stop()\<close> on the object held in
  the component's state (nothing happens when that is still \<^verbatim>\<open>null\<close>);
  \<open>NewRecognition\<close> is \<^verbatim>\<open>newRecognition.stop()\<close> of the result handler.
\<close>

datatype stop_call = StateRecognition | NewRecognition

record app_state =
  content :: jsstring
  history :: "CommandHistory list"
  isDarkMode :: bool
  isProcessing :: bool
  micPermission :: permission
  isMuted :: bool
  opened :: "jsstring list"
  spoken :: "jsstring list"
  beeps :: "(nat \<times> OscillatorType) list"
  stop_calls :: "stop_call list"

text \<open>The initial values of the \<^verbatim>\<open>useState\<close> cells, and empty logs.\<close>

definition initial_state :: app_state where
  "initial_state =
     \<lparr>content = [], history = [], isDarkMode = True, isProcessing = False,
      micPermission = Prompt, isMuted = False, opened = [], spoken = [], beeps = [],
      stop_calls = []\<rparr>"

text \<open>
  The functions of the browser whose results depend on the locale and on the
  Unicode tables; they are parameters of the model. A date is the number of
  milliseconds that \<^verbatim>\<open>new Date()\<close> read from the clock.
\<close>

record platform =
  toLowerCase :: "jsstring \<Rightarrow> jsstring"
  toLocaleTimeString :: "nat \<Rightarrow> jsstring"
  toLocaleString_time :: "nat \<Rightarrow> jsstring"
  toLocaleString_date :: "nat \<Rightarrow> jsstring"
  getHours :: "nat \<Rightarrow> nat"

text \<open>
  What the speech synthesis does with an utterance: it ends, it reports an error
  (\<^verbatim>\<open>onerror\<close>), or a call of the synthesis interface throws inside the
  \<^verbatim>\<open>try\<close> block of \<^verbatim>\<open>speak\<close>.
\<close>

datatype synthesis_outcome = Ended | Errored | Failed

text \<open>
  The inputs of one turn: the clock as read by the result handler, by the time and
  date rules (and by \<^verbatim>\<open>wishMe\<close>) and by \<^verbatim>\<open>speak\<close> when it logs the reply, and
  what the synthesis does.
\<close>

record turn_io =
  date_result :: nat
  date_command :: nat
  date_reply :: nat
  synthesis :: synthesis_outcome

text \<open>How a handler finishes: normally, or with an exception (for the asynchronous
  \<^verbatim>\<open>handleCommand\<close>: its promise is rejected).\<close>

datatype completion = Completed | Threw js_error

section \<open>speak, playBeep and wishMe\<close>

text \<open>
  The functions of one render close over that render's \<^verbatim>\<open>isMuted\<close>; it is the
  argument \<open>muted\<close>. \<^verbatim>\<open>speak\<close> returns at once when it is set. Otherwise the
  utterance is handed to the synthesis and an assistant entry is appended to the
  history; \<^verbatim>\<open>isProcessing\<close> is set for the time the utterance plays. When the
  synthesis interface throws, the \<^verbatim>\<open>catch\<close> block only resets \<^verbatim>\<open>isProcessing\<close>.
\<close>

definition speak :: "platform \<Rightarrow> turn_io \<Rightarrow> bool \<Rightarrow> jsstring \<Rightarrow> app_state \<Rightarrow> app_state" where
  "speak pf io muted text_arg s =
     (if muted then s
      else
        (case synthesis io of
           Failed \<Rightarrow> s\<lparr>isProcessing := False\<rparr>
         | _ \<Rightarrow>
             s\<lparr>isProcessing := False,
               spoken := spoken s @ [text_arg],
               history := history s @
                 [\<lparr>type = Assistant, message = text_arg,
                   timestamp = toLocaleTimeString pf (date_reply io)\<rparr>]\<rparr>))"

definition playBeep :: "bool \<Rightarrow> nat \<Rightarrow> OscillatorType \<Rightarrow> app_state \<Rightarrow> app_state" where
  "playBeep muted frequency ty s =
     (if muted then s else s\<lparr>beeps := beeps s @ [(frequency, ty)]\<rparr>)"


section \<open>handleCommand\<close>

definition help_text :: jsstring where
  "help_text =
     js ''I can help you with various tasks. Here are some examples:'' @ [0x0A] @
     js ''        Open websites like Google, YouTube, or Facebook,'' @ [0x0A] @
     js ''        Check the time and date,'' @ [0x0A] @
     js ''        Search the internet,'' @ [0x0A] @
     js ''        Look up information on Wikipedia,'' @ [0x0A] @
     js ''        Check the weather,'' @ [0x0A] @
     js ''        Switch between dark and light mode,'' @ [0x0A] @
     js ''        Play music,'' @ [0x0A] @
     js ''        Use calculator.'' @ [0x0A] @
     js ''        Just speak your command clearly.''"

text \<open>
  The ladder of \<^verbatim>\<open>if\<close> and \<^verbatim>\<open>else if\<close> of the source, in its order. \<open>st\<close> is
  the state when the command arrives; the render's \<^verbatim>\<open>isMuted\<close> is read from it
  once, as the closures of the render do (the effect that installs the result
  handler runs again whenever \<^verbatim>\<open>isMuted\<close> changes).
\<close>

definition handleCommand ::
  "platform \<Rightarrow> turn_io \<Rightarrow> jsstring \<Rightarrow> app_state \<Rightarrow> app_state \<times> completion" where
  "handleCommand pf io msg st =
     (let muted = isMuted st;
          s = (if \<not> muted then playBeep muted 600 Sine st else st)
      in
      if str_includes msg (js ''hey'') \<or> str_includes msg (js ''hello'')
         \<or> str_includes msg (js ''hi'') then
        (speak pf io muted
           (js ''Hello! I'm your AI assistant. How may I help you today?'') s, Completed)
      else if str_includes msg (js ''dark mode'')
              \<or> str_includes msg (js ''light mode'') then
        (speak pf io muted
           (js ''Switching to ''
              @ (if str_includes msg (js ''dark mode'') then js ''dark'' else js ''light'')
              @ js '' mode'')
           (s\<lparr>isDarkMode := str_includes msg (js ''dark mode'')\<rparr>), Completed)
      else if str_includes msg (js ''play music'')
              \<or> str_includes msg (js ''spotify'') then
        (speak pf io muted (js ''Opening Spotify for you'')
           (s\<lparr>opened := opened s @ [js ''https://open.spotify.com'']\<rparr>), Completed)
      else if str_includes msg (js ''calculator'') then
        (speak pf io muted (js ''Opening calculator'')
           (s\<lparr>opened := opened s @ [js ''https://www.google.com/search?q=calculator'']\<rparr>),
         Completed)
      else if str_includes msg (js ''open google'') then
        (speak pf io muted (js ''Opening Google in a new tab'')
           (s\<lparr>opened := opened s @ [js ''https://google.com'']\<rparr>), Completed)
      else if str_includes msg (js ''open youtube'') then
        (speak pf io muted (js ''Opening YouTube in a new tab'')
           (s\<lparr>opened := opened s @ [js ''https://youtube.com'']\<rparr>), Completed)
      else if str_includes msg (js ''open facebook'') then
        (speak pf io muted (js ''Opening Facebook in a new tab'')
           (s\<lparr>opened := opened s @ [js ''https://facebook.com'']\<rparr>), Completed)
      else if str_includes msg (js ''time'') then
        (speak pf io muted
           (js ''The current time is '' @ toLocaleString_time pf (date_command io)) s,
         Completed)
      else if str_includes msg (js ''date'') then
        (speak pf io muted (js ''Today is '' @ toLocaleString_date pf (date_command io)) s,
         Completed)
      else if str_includes msg (js ''what is'') \<or> str_includes msg (js ''who is'')
              \<or> str_includes msg (js ''what are'') then
        (let searchQuery =
               trim (replace_regex msg [js ''what is'', js ''who is'', js ''what are''] [])
         in
         case encodeURIComponent searchQuery of
           Inl e \<Rightarrow> (s, Threw e)
         | Inr q \<Rightarrow>
             (speak pf io muted
                (js ''I've found some information about '' @ searchQuery
                   @ js ''. Opening search results.'')
                (s\<lparr>opened := opened s @ [js ''https://www.google.com/search?q='' @ q]\<rparr>),
              Completed))
      else if str_includes msg (js ''wikipedia'') then
        (let searchQuery = trim (replace_str msg (js ''wikipedia'') []) in
         case encodeURIComponent searchQuery of
           Inl e \<Rightarrow> (s, Threw e)
         | Inr q \<Rightarrow>
             (speak pf io muted (js ''Opening Wikipedia article about '' @ searchQuery)
                (s\<lparr>opened := opened s @ [js ''https://en.wikipedia.org/wiki/'' @ q]\<rparr>),
              Completed))
      else if str_includes msg (js ''weather'') then
        (let location =
               (if trim (replace_str msg (js ''weather'') []) = []
                then js ''current location''
                else trim (replace_str msg (js ''weather'') []))
         in
         case encodeURIComponent location of
           Inl e \<Rightarrow> (s, Threw e)
         | Inr q \<Rightarrow>
             (speak pf io muted (js ''Checking weather for '' @ location)
                (s\<lparr>opened := opened s @ [js ''https://www.google.com/search?q=weather+'' @ q]\<rparr>),
              Completed))
      else if str_includes msg (js ''help'')
              \<or> str_includes msg (js ''what can you do'') then
        (speak pf io muted help_text s, Completed)
      else if str_includes msg (js ''stop listening'')
              \<or> str_includes msg (js ''stop'') then
        (speak pf io muted (js ''Stopping voice recognition'')
           (s\<lparr>stop_calls := stop_calls s @ [StateRecognition]\<rparr>), Completed)
      else if str_includes msg (js ''mute'') \<or> str_includes msg (js ''unmute'') then
        (speak pf io muted (if muted then js ''Sound enabled'' else js ''Sound disabled'')
           (s\<lparr>isMuted := \<not> muted\<rparr>), Completed)
      else
        (case encodeURIComponent msg of
           Inl e \<Rightarrow> (s, Threw e)
         | Inr q \<Rightarrow>
             (speak pf io muted (js ''I'm searching for information about your request'')
                (s\<lparr>opened := opened s @ [js ''https://www.google.com/search?q='' @ q]\<rparr>),
              Completed)))"

section \<open>The result handler and the initialization effect\<close>



section \<open>Turns\<close>





section \<open>The history log\<close>










section \<open>A platform for the examples\<close>

text \<open>
  The examples below run on a platform that lower-cases the ASCII letters, prints a
  date as its number of milliseconds in decimal, and takes the hour from the
  milliseconds since midnight (universal time).
\<close>

fun decimal :: "nat \<Rightarrow> jsstring" where
  "decimal n = (if n < 10 then [of_nat (0x30 + n)] else decimal (n div 10) @ [of_nat (0x30 + n mod 10)])"

definition ascii_lower :: "jsstring \<Rightarrow> jsstring" where
  "ascii_lower s = map (\<lambda>c. if 0x41 \<le> c \<and> c \<le> 0x5A then c + 0x20 else c) s"

definition sample_platform :: platform where
  "sample_platform =
     \<lparr>toLowerCase = ascii_lower, toLocaleTimeString = decimal, toLocaleString_time = decimal,
      toLocaleString_date = decimal, getHours = (\<lambda>d. (d div 3600000) mod 24)\<rparr>"

definition sample_io :: turn_io where
  "sample_io = \<lparr>date_result = 1000, date_command = 1001, date_reply = 1101, synthesis = Ended\<rparr>"






section \<open>The rules as a table\<close>

text \<open>
  The sixteen rules of the ladder in their priority order, each with its
  predicate and its action. \<open>rank\<close> is the position in the ladder (1 is tried
  first); a rule fires on a transcript when its predicate holds and the predicate
  of no rule of smaller rank does. The table is compared with \<open>handleCommand\<close>
  below.
\<close>

datatype rule =
    Greet | DisplayMode | PlayMusic | Calculator | OpenGoogle | OpenYoutube | OpenFacebook
  | TimeRule | DateRule | Ask | Wikipedia | Weather | Help | Stop | Mute | Fallback

fun rank :: "rule \<Rightarrow> nat" where
  "rank Greet = 1"
| "rank DisplayMode = 2"
| "rank PlayMusic = 3"
| "rank Calculator = 4"
| "rank OpenGoogle = 5"
| "rank OpenYoutube = 6"
| "rank OpenFacebook = 7"
| "rank TimeRule = 8"
| "rank DateRule = 9"
| "rank Ask = 10"
| "rank Wikipedia = 11"
| "rank Weather = 12"
| "rank Help = 13"
| "rank Stop = 14"
| "rank Mute = 15"
| "rank Fallback = 16"

fun matches :: "rule \<Rightarrow> jsstring \<Rightarrow> bool" where
  "matches Greet m =
     (str_includes m (js ''hey'') \<or> str_includes m (js ''hello'') \<or> str_includes m (js ''hi''))"
| "matches DisplayMode m =
     (str_includes m (js ''dark mode'') \<or> str_includes m (js ''light mode''))"
| "matches PlayMusic m = (str_includes m (js ''play music'') \<or> str_includes m (js ''spotify''))"
| "matches Calculator m = str_includes m (js ''calculator'')"
| "matches OpenGoogle m = str_includes m (js ''open google'')"
| "matches OpenYoutube m = str_includes m (js ''open youtube'')"
| "matches OpenFacebook m = str_includes m (js ''open facebook'')"
| "matches TimeRule m = str_includes m (js ''time'')"
| "matches DateRule m = str_includes m (js ''date'')"
| "matches Ask m =
     (str_includes m (js ''what is'') \<or> str_includes m (js ''who is'')
      \<or> str_includes m (js ''what are''))"
| "matches Wikipedia m = str_includes m (js ''wikipedia'')"
| "matches Weather m = str_includes m (js ''weather'')"
| "matches Help m = (str_includes m (js ''help'') \<or> str_includes m (js ''what can you do''))"
| "matches Stop m = (str_includes m (js ''stop listening'') \<or> str_includes m (js ''stop''))"
| "matches Mute m = (str_includes m (js ''mute'') \<or> str_includes m (js ''unmute''))"
| "matches Fallback m = True"

definition fires :: "rule \<Rightarrow> jsstring \<Rightarrow> bool" where
  "fires r m = (matches r m \<and> (\<forall>j. rank j < rank r \<longrightarrow> \<not> matches j m))"

text \<open>The phrases of the regular expression of the "what is" rule.\<close>

definition ask_phrases :: "jsstring list" where
  "ask_phrases = [js ''what is'', js ''who is'', js ''what are'']"

text \<open>The state in which the rules run: the command beep has been played.\<close>

definition command_beep :: "app_state \<Rightarrow> app_state" where
  "command_beep st = playBeep (isMuted st) 600 Sine st"

text \<open>Opening a URL and then speaking, or failing with the error of the encoding.\<close>

definition open_encoded ::
  "platform \<Rightarrow> turn_io \<Rightarrow> bool \<Rightarrow> jsstring \<Rightarrow> jsstring \<Rightarrow> jsstring \<Rightarrow> app_state
     \<Rightarrow> app_state \<times> completion" where
  "open_encoded pf io muted url query reply s =
     (case encodeURIComponent query of
        Inl e \<Rightarrow> (s, Threw e)
      | Inr q \<Rightarrow> (speak pf io muted reply (s\<lparr>opened := opened s @ [url @ q]\<rparr>), Completed))"

fun rule_action ::
  "platform \<Rightarrow> turn_io \<Rightarrow> bool \<Rightarrow> rule \<Rightarrow> jsstring \<Rightarrow> app_state \<Rightarrow> app_state \<times> completion" where
  "rule_action pf io muted Greet m s =
     (speak pf io muted (js ''Hello! I'm your AI assistant. How may I help you today?'') s,
      Completed)"
| "rule_action pf io muted DisplayMode m s =
     (speak pf io muted
        (if str_includes m (js ''dark mode'') then js ''Switching to dark mode''
         else js ''Switching to light mode'')
        (s\<lparr>isDarkMode := str_includes m (js ''dark mode'')\<rparr>), Completed)"
| "rule_action pf io muted PlayMusic m s =
     (speak pf io muted (js ''Opening Spotify for you'')
        (s\<lparr>opened := opened s @ [js ''https://open.spotify.com'']\<rparr>), Completed)"
| "rule_action pf io muted Calculator m s =
     (speak pf io muted (js ''Opening calculator'')
        (s\<lparr>opened := opened s @ [js ''https://www.google.com/search?q=calculator'']\<rparr>),
      Completed)"
| "rule_action pf io muted OpenGoogle m s =
     (speak pf io muted (js ''Opening Google in a new tab'')
        (s\<lparr>opened := opened s @ [js ''https://google.com'']\<rparr>), Completed)"
| "rule_action pf io muted OpenYoutube m s =
     (speak pf io muted (js ''Opening YouTube in a new tab'')
        (s\<lparr>opened := opened s @ [js ''https://youtube.com'']\<rparr>), Completed)"
| "rule_action pf io muted OpenFacebook m s =
     (speak pf io muted (js ''Opening Facebook in a new tab'')
        (s\<lparr>opened := opened s @ [js ''https://facebook.com'']\<rparr>), Completed)"
| "rule_action pf io muted TimeRule m s =
     (speak pf io muted (js ''The current time is '' @ toLocaleString_time pf (date_command io)) s,
      Completed)"
| "rule_action pf io muted DateRule m s =
     (speak pf io muted (js ''Today is '' @ toLocaleString_date pf (date_command io)) s,
      Completed)"
| "rule_action pf io muted Ask m s =
     open_encoded pf io muted (js ''https://www.google.com/search?q='')
       (trim (replace_regex m [js ''what is'', js ''who is'', js ''what are''] []))
       (js ''I've found some information about ''
          @ trim (replace_regex m [js ''what is'', js ''who is'', js ''what are''] [])
          @ js ''. Opening search results.'') s"
| "rule_action pf io muted Wikipedia m s =
     open_encoded pf io muted (js ''https://en.wikipedia.org/wiki/'')
       (trim (replace_str m (js ''wikipedia'') []))
       (js ''Opening Wikipedia article about '' @ trim (replace_str m (js ''wikipedia'') [])) s"
| "rule_action pf io muted Weather m s =
     (let location =
            (if trim (replace_str m (js ''weather'') []) = [] then js ''current location''
             else trim (replace_str m (js ''weather'') []))
      in open_encoded pf io muted (js ''https://www.google.com/search?q=weather+'') location
           (js ''Checking weather for '' @ location) s)"
| "rule_action pf io muted Help m s = (speak pf io muted help_text s, Completed)"
| "rule_action pf io muted Stop m s =
     (speak pf io muted (js ''Stopping voice recognition'')
        (s\<lparr>stop_calls := stop_calls s @ [StateRecognition]\<rparr>), Completed)"
| "rule_action pf io muted Mute m s =
     (speak pf io muted (if muted then js ''Sound enabled'' else js ''Sound disabled'')
        (s\<lparr>isMuted := \<not> muted\<rparr>), Completed)"
| "rule_action pf io muted Fallback m s =
     open_encoded pf io muted (js ''https://www.google.com/search?q='') m
       (js ''I'm searching for information about your request'') s"



section \<open>Facts about the string functions\<close>

lemma str_includes_sublist: "str_includes s p = sublist p s"
  by (induction s) (simp_all add: sublist_Cons_right)

lemma str_includes_iff: "str_includes s p \<longleftrightarrow> (\<exists>a b. s = a @ p @ b)"
  by (simp add: str_includes_sublist sublist_def)

lemma str_includes_trans:
  "str_includes s p \<Longrightarrow> str_includes p q \<Longrightarrow> str_includes s q"
  unfolding str_includes_sublist by (rule sublist_order.order_trans)

lemma js_append: "js a @ js b = js (a @ b)"
  by (simp add: js_def)

lemma not_lead_and_trail: "is_lead_surrogate c \<Longrightarrow> \<not> is_trail_surrogate c"
  unfolding is_lead_surrogate_def is_trail_surrogate_def by unat_arith

lemma ascii_not_surrogate: "c < 0x80 \<Longrightarrow> \<not> is_surrogate c"
  unfolding is_surrogate_def is_lead_surrogate_def is_trail_surrogate_def by unat_arith

lemma white_space_not_surrogate: "is_white_space c \<Longrightarrow> \<not> is_surrogate c"
  unfolding is_surrogate_def is_white_space_def is_lead_surrogate_def is_trail_surrogate_def
  by unat_arith

lemma well_formed_Cons:
  "\<not> is_surrogate c \<Longrightarrow> well_formed (c # cs) = well_formed cs"
  by (cases cs) (auto simp: is_surrogate_def)

lemma well_formed_append: "well_formed xs \<Longrightarrow> well_formed ys \<Longrightarrow> well_formed (xs @ ys)"
proof (induction xs rule: well_formed.induct)
  case 1
  then show ?case by simp
next
  case (2 c)
  then show ?case by (simp add: well_formed_Cons is_surrogate_def)
next
  case (3 c d cs)
  then show ?case by (auto split: if_splits)
qed

lemma well_formed_split:
  "well_formed (xs @ c # ys) \<Longrightarrow> \<not> is_surrogate c \<Longrightarrow> well_formed xs \<and> well_formed ys"
proof (induction xs rule: well_formed.induct)
  case 1
  then show ?case by (simp add: well_formed_Cons)
next
  case (2 x)
  then show ?case by (auto simp: is_surrogate_def well_formed_Cons split: if_splits)
next
  case (3 x y zs)
  then show ?case by (auto split: if_splits)
qed

lemma well_formed_remove:
  assumes "well_formed (xs @ p @ ys)" and "\<forall>c\<in>set p. \<not> is_surrogate c"
  shows "well_formed (xs @ ys)"
  using assms
proof (induction p)
  case Nil
  then show ?case by simp
next
  case (Cons c p)
  from Cons.prems have "well_formed xs \<and> well_formed (p @ ys)"
    using well_formed_split [of xs c "p @ ys"] by simp
  then have "well_formed (xs @ p @ ys)" by (simp add: well_formed_append)
  with Cons show ?case by simp
qed

lemma well_formed_dropWhile: "well_formed s \<Longrightarrow> well_formed (dropWhile is_white_space s)"
  by (induction s) (auto simp: well_formed_Cons white_space_not_surrogate)

lemma well_formed_rev_dropWhile:
  "well_formed s \<Longrightarrow> well_formed (rev (dropWhile is_white_space (rev s)))"
proof (induction s rule: rev_induct)
  case Nil
  then show ?case by simp
next
  case (snoc c s)
  show ?case
  proof (cases "is_white_space c")
    case True
    then have "well_formed s"
      using snoc.prems well_formed_split [of s c "[]"] white_space_not_surrogate by simp
    with True snoc.IH show ?thesis by simp
  next
    case False
    with snoc.prems show ?thesis by simp
  qed
qed

lemma well_formed_trim: "well_formed s \<Longrightarrow> well_formed (trim s)"
  by (simp add: trim_def well_formed_dropWhile well_formed_rev_dropWhile)

lemma unreserved_not_surrogate: "uri_unreserved c \<Longrightarrow> \<not> is_surrogate c"
  unfolding is_surrogate_def uri_unreserved_def is_lead_surrogate_def is_trail_surrogate_def
  by unat_arith

lemma encodeURIComponent_total: "well_formed s \<Longrightarrow> \<exists>q. encodeURIComponent s = Inr q"
proof (induction s rule: well_formed.induct)
  case 1
  then show ?case by simp
next
  case (2 c)
  then show ?case by simp
next
  case (3 c d cs)
  show ?case
  proof (cases "is_lead_surrogate c")
    case True
    with "3.prems" have d: "is_trail_surrogate d" and "well_formed cs" by simp_all
    with "3.IH"(1) True obtain q where "encodeURIComponent cs = Inr q" by blast
    moreover have "\<not> uri_unreserved c"
      using True unreserved_not_surrogate [of c] by (auto simp: is_surrogate_def)
    ultimately show ?thesis using True d by simp
  next
    case False
    with "3.prems" have t: "\<not> is_trail_surrogate c" and "well_formed (d # cs)" by simp_all
    with "3.IH"(2) False obtain q where "encodeURIComponent (d # cs) = Inr q" by blast
    then show ?thesis
      using False t encodeURIComponent.simps(2) [of c "d # cs"] by (simp del: encodeURIComponent.simps)
  qed
qed

lemma encodeURIComponent_error: "encodeURIComponent s = Inl e \<Longrightarrow> e = URIError"
  by (induction s rule: encodeURIComponent.induct) (auto split: if_splits sum.splits list.splits)

lemma replace_str_first:
  assumes "str_includes s p"
  shows "\<exists>pre post. s = pre @ p @ post \<and> replace_str s p r = pre @ r @ post
           \<and> (\<forall>pre' post'. s = pre' @ p @ post' \<longrightarrow> length pre \<le> length pre')"
  using assms
proof (induction s)
  case Nil
  then show ?case by simp
next
  case (Cons c cs)
  show ?case
  proof (cases "prefix p (c # cs)")
    case True
    then obtain post where post: "c # cs = p @ post" by (auto elim: prefixE)
    have "replace_str (c # cs) p r = r @ drop (length p) (c # cs)" using True by simp
    also have "drop (length p) (c # cs) = post" by (simp add: post)
    finally have "replace_str (c # cs) p r = [] @ r @ post" by simp
    with post show ?thesis by (metis append_Nil le0 list.size(3))
  next
    case False
    with Cons.prems have "str_includes cs p" by simp
    with Cons.IH obtain pre post where cs: "cs = pre @ p @ post"
      and rep: "replace_str cs p r = pre @ r @ post"
      and least: "\<forall>pre' post'. cs = pre' @ p @ post' \<longrightarrow> length pre \<le> length pre'"
      by blast
    have "length (c # pre) \<le> length pre'" if d: "c # cs = pre' @ p @ post'" for pre' post'
    proof (cases pre')
      case Nil
      with d have "prefix p (c # cs)" by simp
      with False show ?thesis by simp
    next
      case (Cons x xs)
      with d have "cs = xs @ p @ post'" by simp
      with least have "length pre \<le> length xs" by blast
      with Cons show ?thesis by simp
    qed
    moreover have "c # cs = (c # pre) @ p @ post" using cs by simp
    moreover have "replace_str (c # cs) p r = (c # pre) @ r @ post" using False rep by simp
    ultimately show ?thesis by blast
  qed
qed

lemma match_alternatives_Some:
  "match_alternatives alts x = Some n \<Longrightarrow> \<exists>a\<in>set alts. n = length a \<and> literal_matches_ci a x"
  by (induction alts) (auto split: if_splits)

lemma match_alternatives_None:
  "match_alternatives alts x = None \<longleftrightarrow> (\<forall>a\<in>set alts. \<not> literal_matches_ci a x)"
  by (induction alts) auto

lemma literal_matches_ci_split:
  "literal_matches_ci a x \<Longrightarrow>
     \<exists>ph post. x = ph @ post \<and> length ph = length a \<and> literal_matches_ci a ph"
proof (induction a x rule: literal_matches_ci.induct)
  case (1 s)
  then show ?case by simp
next
  case (2 p ps)
  then show ?case by simp
next
  case (3 p ps c cs)
  then obtain ph post where "cs = ph @ post \<and> length ph = length ps \<and> literal_matches_ci ps ph"
    by auto
  then have "c # cs = (c # ph) @ post \<and> length (c # ph) = length (p # ps)
      \<and> literal_matches_ci (p # ps) (c # ph)"
    using "3.prems" by simp
  then show ?case by blast
qed

lemma literal_matches_ci_append:
  "literal_matches_ci a ph \<Longrightarrow> literal_matches_ci a (ph @ post)"
  by (induction a ph rule: literal_matches_ci.induct) simp_all

lemma literal_matches_ci_self:
  "\<forall>c\<in>set p. c < 0x80 \<Longrightarrow> literal_matches_ci p (p @ x)"
  by (induction p) (simp_all add: char_matches_ci_def)

lemma literal_matches_ci_ascii:
  "literal_matches_ci a ph \<Longrightarrow> length ph = length a \<Longrightarrow> \<forall>c\<in>set ph. c < 0x80"
  by (induction a ph rule: literal_matches_ci.induct) (simp_all add: char_matches_ci_def)

lemma replace_regex_first:
  assumes "\<exists>a b. s = a @ b \<and> match_alternatives alts b \<noteq> None"
  shows "\<exists>pre ph post a. s = pre @ ph @ post \<and> a \<in> set alts \<and> length ph = length a
           \<and> literal_matches_ci a ph \<and> replace_regex s alts r = pre @ r @ post
           \<and> (\<forall>pre' b. s = pre' @ b \<and> match_alternatives alts b \<noteq> None
                 \<longrightarrow> length pre \<le> length pre')"
  using assms
proof (induction s)
  case Nil
  then obtain n where n: "match_alternatives alts [] = Some n" by auto
  then obtain a where a: "a \<in> set alts" "literal_matches_ci a []"
    using match_alternatives_Some by blast
  moreover have "literal_matches_ci q [] \<Longrightarrow> q = []" for q by (cases q) simp_all
  ultimately have "a = []" by blast
  with a n have "[] = [] @ [] @ [] \<and> a \<in> set alts \<and> length ([]::jsstring) = length a
      \<and> literal_matches_ci a [] \<and> replace_regex [] alts r = [] @ r @ []"
    by simp
  then show ?case by (metis le0 list.size(3))
next
  case (Cons c cs)
  show ?case
  proof (cases "match_alternatives alts (c # cs)")
    case (Some n)
    then obtain a where a: "a \<in> set alts" "n = length a" "literal_matches_ci a (c # cs)"
      using match_alternatives_Some by blast
    then obtain ph post where ph: "c # cs = ph @ post" "length ph = length a"
        "literal_matches_ci a ph"
      using literal_matches_ci_split by blast
    then have "drop n (c # cs) = post" using a(2) by simp
    then have "replace_regex (c # cs) alts r = [] @ r @ post" using Some by simp
    with ph a(1) have "c # cs = [] @ ph @ post \<and> a \<in> set alts \<and> length ph = length a
        \<and> literal_matches_ci a ph \<and> replace_regex (c # cs) alts r = [] @ r @ post"
      by simp
    then show ?thesis by (metis le0 list.size(3))
  next
    case None
    from Cons.prems obtain x b where xb: "c # cs = x @ b" "match_alternatives alts b \<noteq> None"
      by blast
    with None have "x \<noteq> []" by auto
    with xb have "\<exists>a b. cs = a @ b \<and> match_alternatives alts b \<noteq> None"
      by (cases x) auto
    with Cons.IH obtain pre ph post a where ih: "cs = pre @ ph @ post" "a \<in> set alts"
        "length ph = length a" "literal_matches_ci a ph"
        "replace_regex cs alts r = pre @ r @ post"
        "\<forall>pre' b. cs = pre' @ b \<and> match_alternatives alts b \<noteq> None
            \<longrightarrow> length pre \<le> length pre'"
      by blast
    have "length (c # pre) \<le> length pre'"
      if d: "c # cs = pre' @ b \<and> match_alternatives alts b \<noteq> None" for pre' b
    proof (cases pre')
      case Nil
      with d None show ?thesis by simp
    next
      case (Cons y ys)
      with d have "cs = ys @ b \<and> match_alternatives alts b \<noteq> None" by simp
      with ih(6) have "length pre \<le> length ys" by blast
      with Cons show ?thesis by simp
    qed
    moreover have "c # cs = (c # pre) @ ph @ post" using ih(1) by simp
    moreover have "replace_regex (c # cs) alts r = (c # pre) @ r @ post"
      using None ih(5) by simp
    ultimately show ?thesis using ih(2,3,4) by blast
  qed
qed

lemma lower_case_match:
  assumes "char_matches_ci p c" and "\<not> (0x41 \<le> c \<and> c \<le> 0x5A)"
    and "(0x61 \<le> p \<and> p \<le> 0x7A) \<or> p = 0x20"
  shows "c = p"
  using assms unfolding char_matches_ci_def canonicalize_ascii_def
  by (auto split: if_splits) unat_arith+

section \<open>Dispatch\<close>

lemma all_rules:
  "(\<forall>j. Q j) \<longleftrightarrow>
     Q Greet \<and> Q DisplayMode \<and> Q PlayMusic \<and> Q Calculator \<and> Q OpenGoogle \<and> Q OpenYoutube
     \<and> Q OpenFacebook \<and> Q TimeRule \<and> Q DateRule \<and> Q Ask \<and> Q Wikipedia \<and> Q Weather
     \<and> Q Help \<and> Q Stop \<and> Q Mute \<and> Q Fallback"
proof
  assume r: "Q Greet \<and> Q DisplayMode \<and> Q PlayMusic \<and> Q Calculator \<and> Q OpenGoogle
     \<and> Q OpenYoutube \<and> Q OpenFacebook \<and> Q TimeRule \<and> Q DateRule \<and> Q Ask \<and> Q Wikipedia
     \<and> Q Weather \<and> Q Help \<and> Q Stop \<and> Q Mute \<and> Q Fallback"
  show "\<forall>j. Q j"
  proof
    fix j
    from r show "Q j" by (cases j) simp_all
  qed
qed simp

lemma rank_inj: "rank r = rank r' \<Longrightarrow> r = r'"
  by (cases r; cases r'; simp)

lemma fires_unique: "fires r m \<Longrightarrow> fires r' m \<Longrightarrow> r = r'"
proof -
  assume a: "fires r m" and b: "fires r' m"
  have "\<not> rank r < rank r'" using a b by (auto simp: fires_def)
  moreover have "\<not> rank r' < rank r" using a b by (auto simp: fires_def)
  ultimately show ?thesis by (simp add: rank_inj)
qed

lemma fires_exists: "\<exists>r. fires r m"
proof -
  have "matches Fallback m" by simp
  then obtain r where "matches r m" and "\<forall>j. matches j m \<longrightarrow> rank r \<le> rank j"
    using ex_has_least_nat [of "\<lambda>r. matches r m" Fallback rank] by blast
  then have "fires r m" unfolding fires_def by (meson not_le)
  then show ?thesis ..
qed

lemma fires_first: "fires r m \<Longrightarrow> matches k m \<Longrightarrow> rank r \<le> rank k"
  unfolding fires_def by (meson not_le)

lemma handleCommand_dispatch:
  assumes "fires r m"
  shows "handleCommand pf io m s = rule_action pf io (isMuted s) r m (command_beep s)"
  using assms unfolding fires_def all_rules
  by (cases r)
     (simp_all add: handleCommand_def Let_def command_beep_def playBeep_def open_encoded_def
        js_append split: sum.splits)

lemma fires_time_example: "fires TimeRule (js ''what is the time'')"
  unfolding fires_def all_rules by (simp add: js_def)

section \<open>Facts about speak and the command beep\<close>


lemma speak_frame:
  "isDarkMode (speak pf io muted t s) = isDarkMode s"
  "isMuted (speak pf io muted t s) = isMuted s"
  "opened (speak pf io muted t s) = opened s"
  "stop_calls (speak pf io muted t s) = stop_calls s"
  "beeps (speak pf io muted t s) = beeps s"
  "content (speak pf io muted t s) = content s"
  by (simp_all add: speak_def split: synthesis_outcome.splits)

lemma speak_spoken:
  "spoken (speak pf io muted t s) =
     spoken s @ (if muted \<or> synthesis io = Failed then [] else [t])"
  by (simp add: speak_def split: synthesis_outcome.splits)


lemma command_beep_frame:
  "isDarkMode (command_beep s) = isDarkMode s"
  "isMuted (command_beep s) = isMuted s"
  "opened (command_beep s) = opened s"
  "stop_calls (command_beep s) = stop_calls s"
  "spoken (command_beep s) = spoken s"
  "history (command_beep s) = history s"
  "content (command_beep s) = content s"
  by (simp_all add: command_beep_def playBeep_def)

lemma this_includes_hi: "str_includes (js ''this'') (js ''hi'')"
  by (simp add: js_def)


lemma fires_mute_example: "fires Mute (js ''mute'')"
  unfolding fires_def all_rules by (simp add: js_def)

lemma fires_unmute_example: "fires Mute (js ''unmute'')"
  unfolding fires_def all_rules by (simp add: js_def)

lemma no_rule_iff_fallback:
  "fires Fallback m \<longleftrightarrow> (\<forall>r. r \<noteq> Fallback \<longrightarrow> \<not> matches r m)"
  unfolding fires_def all_rules by simp

lemma js_ascii: "\<forall>c\<in>set (js cs). c < 0x80 \<Longrightarrow> \<forall>c\<in>set (js cs). \<not> is_surrogate c"
  by (simp add: ascii_not_surrogate)

lemma weather_ascii: "\<forall>c\<in>set (js ''weather''). \<not> is_surrogate c"
  by (rule js_ascii) (simp add: js_def)

lemma current_location_ok:
  "encodeURIComponent (js ''current location'') = Inr (js ''current%20location'')"
  by (simp add: js_def uri_unreserved_def is_lead_surrogate_def is_trail_surrogate_def
        percent_encode_def utf8_def percent_octet_def hex_digit_def)

lemmas string_eval =
  js_def trim_def is_white_space_def uri_unreserved_def is_lead_surrogate_def
  is_trail_surrogate_def percent_encode_def utf8_def percent_octet_def hex_digit_def

lemma fires_weather_example: "fires Weather (js ''weather in paris'')"
  unfolding fires_def all_rules by (simp add: js_def)

lemma ask_phrases_ascii: "a \<in> set ask_phrases \<Longrightarrow> \<forall>c\<in>set a. c < 0x80"
  by (auto simp: ask_phrases_def js_def)

lemma ask_phrases_lower:
  "a \<in> set ask_phrases \<Longrightarrow> \<forall>p\<in>set a. (0x61 \<le> p \<and> p \<le> 0x7A) \<or> p = 0x20"
  by (auto simp: ask_phrases_def js_def)

lemma literal_matches_lower:
  "literal_matches_ci a ph \<Longrightarrow> length ph = length a
   \<Longrightarrow> \<forall>p\<in>set a. (0x61 \<le> p \<and> p \<le> 0x7A) \<or> p = 0x20
   \<Longrightarrow> \<forall>c\<in>set ph. \<not> (0x41 \<le> c \<and> c \<le> 0x5A) \<Longrightarrow> ph = a"
proof (induction a ph rule: literal_matches_ci.induct)
  case (1 s)
  then show ?case by simp
next
  case (2 p ps)
  then show ?case by simp
next
  case (3 p ps c cs)
  then have "c = p" using lower_case_match [of p c] by simp
  moreover have "cs = ps" using 3 by simp
  ultimately show ?case by simp
qed

lemma matches_Ask_position:
  assumes "matches Ask m"
  shows "\<exists>a b. m = a @ b \<and> match_alternatives ask_phrases b \<noteq> None"
proof -
  from assms obtain p where p: "p \<in> set ask_phrases" "str_includes m p"
    by (auto simp: ask_phrases_def)
  then obtain a b where "m = a @ p @ b" by (auto simp: str_includes_iff)
  moreover have "literal_matches_ci p (p @ b)"
    using p(1) ask_phrases_ascii literal_matches_ci_self by blast
  ultimately show ?thesis using p(1) match_alternatives_None by blast
qed

lemma fires_ask_example: "fires Ask (js ''what is the capital of france'')"
  unfolding fires_def all_rules by (simp add: js_def)

section \<open>Facts about the history\<close>

lemma speak_micPermission: "micPermission (speak pf io muted t s) = micPermission s"
  by (simp add: speak_def split: synthesis_outcome.splits)
























section \<open>The claims\<close>

text \<open>
  C1. Command dispatch is first-match-wins over the fixed priority order: on every
  transcript exactly one rule fires, what \<open>handleCommand\<close> does is the action of
  that rule, and no other rule whose predicate holds on the transcript fires: each
  of them comes later in the order. The transcript "what is the time" matches the
  "time" rule and the "what is" rule; the "time" rule fires.
\<close>

theorem first_match_wins:
  "(\<exists>!r. fires r m)
   \<and> (\<forall>r. fires r m \<longrightarrow>
         handleCommand pf io m s = rule_action pf io (isMuted s) r m (command_beep s))
   \<and> (\<forall>r k. fires r m \<and> matches k m \<and> k \<noteq> r \<longrightarrow> rank r < rank k \<and> \<not> fires k m)
   \<and> matches TimeRule (js ''what is the time'') \<and> matches Ask (js ''what is the time'')
   \<and> fires TimeRule (js ''what is the time'') \<and> \<not> fires Ask (js ''what is the time'')"
proof -
  have one: "\<exists>!r. fires r m"
    using fires_exists [of m] fires_unique [of _ m] by blast
  have act: "\<forall>r. fires r m \<longrightarrow>
      handleCommand pf io m s = rule_action pf io (isMuted s) r m (command_beep s)"
    by (simp add: handleCommand_dispatch)
  have later: "\<forall>r k. fires r m \<and> matches k m \<and> k \<noteq> r \<longrightarrow> rank r < rank k \<and> \<not> fires k m"
  proof (intro allI impI)
    fix r k
    assume a: "fires r m \<and> matches k m \<and> k \<noteq> r"
    then have "rank r \<le> rank k" using fires_first [of r m k] by blast
    moreover have "rank r \<noteq> rank k" using a rank_inj by blast
    ultimately have "rank r < rank k" by simp
    moreover have "\<not> fires k m" using a fires_unique by blast
    ultimately show "rank r < rank k \<and> \<not> fires k m" by simp
  qed
  have ex: "matches TimeRule (js ''what is the time'') \<and> matches Ask (js ''what is the time'')"
    by (simp add: js_def)
  have "\<not> fires Ask (js ''what is the time'')"
    using fires_time_example fires_unique by blast
  with one act later ex fires_time_example show ?thesis by blast
qed

theorem first_match_wins_witness:
  "fires TimeRule (js ''what is the time'')
   \<and> spoken (fst (handleCommand sample_platform sample_io (js ''what is the time'') initial_state))
       = [js ''The current time is 1001'']
   \<and> opened (fst (handleCommand sample_platform sample_io (js ''what is the time'') initial_state))
       = []"
proof -
  have f: "fires TimeRule (js ''what is the time'')"
    using first_match_wins [of "js ''what is the time''"] by blast
  have "handleCommand sample_platform sample_io (js ''what is the time'') initial_state
        = rule_action sample_platform sample_io (isMuted initial_state) TimeRule
            (js ''what is the time'') (command_beep initial_state)"
    using f first_match_wins
      [of "js ''what is the time''" sample_platform sample_io initial_state]
    by blast
  then show ?thesis
    using f
    by (simp add: initial_state_def command_beep_def playBeep_def speak_def sample_platform_def
          sample_io_def js_def)
qed

text \<open>
  C10. The greeting predicate is bare substring containment of "hey", "hello" or
  "hi", without word boundaries. So on every transcript that contains "this" the
  greeting rule fires, no other rule does, and \<open>handleCommand\<close> only speaks the
  greeting; "what is this" is such a transcript, although the predicate of the
  "what is" rule holds on it.
\<close>

theorem greeting_pre_empts:
  "(matches Greet m \<longleftrightarrow>
      (\<exists>a b. m = a @ js ''hey'' @ b \<or> m = a @ js ''hello'' @ b \<or> m = a @ js ''hi'' @ b))
   \<and> (str_includes m (js ''this'') \<longrightarrow>
        fires Greet m \<and> (\<forall>k. k \<noteq> Greet \<longrightarrow> \<not> fires k m)
        \<and> handleCommand pf io m s =
            (speak pf io (isMuted s)
               (js ''Hello! I'm your AI assistant. How may I help you today?'') (command_beep s),
             Completed))
   \<and> str_includes (js ''what is this'') (js ''this'') \<and> matches Ask (js ''what is this'')
   \<and> fires Greet (js ''what is this'') \<and> \<not> fires Ask (js ''what is this'')"
proof -
  have sub: "matches Greet m \<longleftrightarrow>
      (\<exists>a b. m = a @ js ''hey'' @ b \<or> m = a @ js ''hello'' @ b \<or> m = a @ js ''hi'' @ b)"
    by (auto simp: str_includes_iff)
  have gen: "fires Greet m \<and> (\<forall>k. k \<noteq> Greet \<longrightarrow> \<not> fires k m)
        \<and> handleCommand pf io m s =
            (speak pf io (isMuted s)
               (js ''Hello! I'm your AI assistant. How may I help you today?'') (command_beep s),
             Completed)" if t: "str_includes m (js ''this'')" for m
  proof -
    have "str_includes m (js ''hi'')"
      using t this_includes_hi by (rule str_includes_trans)
    then have f: "fires Greet m" unfolding fires_def all_rules by simp
    moreover have "\<forall>k. k \<noteq> Greet \<longrightarrow> \<not> fires k m" using f fires_unique by blast
    moreover have "handleCommand pf io m s =
            (speak pf io (isMuted s)
               (js ''Hello! I'm your AI assistant. How may I help you today?'') (command_beep s),
             Completed)"
      using handleCommand_dispatch [OF f] by simp
    ultimately show ?thesis by blast
  qed
  have ex1: "str_includes (js ''what is this'') (js ''this'')" by (simp add: js_def)
  have ex2: "matches Ask (js ''what is this'')" by (simp add: js_def)
  have ex3: "fires Greet (js ''what is this'')" using gen [OF ex1] by blast
  have ex4: "\<not> fires Ask (js ''what is this'')" using ex3 fires_unique by blast
  show ?thesis using sub gen [of m] ex1 ex2 ex3 ex4 by blast
qed

theorem greeting_pre_empts_witness:
  "str_includes (js ''what is this'') (js ''this'')
   \<and> spoken (fst (handleCommand sample_platform sample_io (js ''what is this'') initial_state))
       = [js ''Hello! I'm your AI assistant. How may I help you today?'']
   \<and> opened (fst (handleCommand sample_platform sample_io (js ''what is this'') initial_state))
       = []"
proof -
  have t: "str_includes (js ''what is this'') (js ''this'')" by (simp add: js_def)
  have "handleCommand sample_platform sample_io (js ''what is this'') initial_state =
      (speak sample_platform sample_io (isMuted initial_state)
         (js ''Hello! I'm your AI assistant. How may I help you today?'')
         (command_beep initial_state), Completed)"
    using t greeting_pre_empts
      [of "js ''what is this''" sample_platform sample_io initial_state]
    by blast
  then show ?thesis
    using t
    by (simp add: speak_spoken speak_frame command_beep_frame)
       (simp add: initial_state_def sample_io_def)
qed

text \<open>
  C4. When the display-mode rule fires on a transcript that contains "dark mode",
  the dark-mode flag is set to true and the reply is "Switching to dark mode"; when
  it fires on a transcript that contains "light mode" but not "dark mode", the flag
  is set to false and the reply is "Switching to light mode". With both phrases
  present, dark wins. The reply is spoken unless sound is muted or the synthesis
  fails.
\<close>

theorem display_mode:
  assumes "fires DisplayMode m"
  shows
    "(str_includes m (js ''dark mode'') \<longrightarrow>
        handleCommand pf io m s =
          (speak pf io (isMuted s) (js ''Switching to dark mode'')
             ((command_beep s)\<lparr>isDarkMode := True\<rparr>), Completed)
        \<and> isDarkMode (fst (handleCommand pf io m s)) = True
        \<and> spoken (fst (handleCommand pf io m s)) =
            spoken s @ (if isMuted s \<or> synthesis io = Failed then []
                        else [js ''Switching to dark mode'']))
     \<and> (str_includes m (js ''light mode'') \<and> \<not> str_includes m (js ''dark mode'') \<longrightarrow>
        handleCommand pf io m s =
          (speak pf io (isMuted s) (js ''Switching to light mode'')
             ((command_beep s)\<lparr>isDarkMode := False\<rparr>), Completed)
        \<and> isDarkMode (fst (handleCommand pf io m s)) = False
        \<and> spoken (fst (handleCommand pf io m s)) =
            spoken s @ (if isMuted s \<or> synthesis io = Failed then []
                        else [js ''Switching to light mode'']))"
  using handleCommand_dispatch [OF assms, of pf io s]
  by (simp add: speak_frame speak_spoken command_beep_frame)

theorem display_mode_witness:
  "fires DisplayMode (js ''dark mode not light mode'')
   \<and> str_includes (js ''dark mode not light mode'') (js ''dark mode'')
   \<and> str_includes (js ''dark mode not light mode'') (js ''light mode'')
   \<and> isDarkMode (fst (handleCommand sample_platform sample_io (js ''dark mode not light mode'')
        (initial_state\<lparr>isDarkMode := False\<rparr>))) = True
   \<and> fires DisplayMode (js ''switch to light mode'')
   \<and> str_includes (js ''switch to light mode'') (js ''light mode'')
   \<and> \<not> str_includes (js ''switch to light mode'') (js ''dark mode'')
   \<and> isDarkMode (fst (handleCommand sample_platform sample_io (js ''switch to light mode'')
        initial_state)) = False
   \<and> spoken (fst (handleCommand sample_platform sample_io (js ''switch to light mode'')
        initial_state)) = [js ''Switching to light mode'']"
proof -
  have f1: "fires DisplayMode (js ''dark mode not light mode'')"
    unfolding fires_def all_rules by (simp add: js_def)
  have f2: "fires DisplayMode (js ''switch to light mode'')"
    unfolding fires_def all_rules by (simp add: js_def)
  have i1: "str_includes (js ''dark mode not light mode'') (js ''dark mode'')"
    and i2: "str_includes (js ''dark mode not light mode'') (js ''light mode'')"
    and i3: "str_includes (js ''switch to light mode'') (js ''light mode'')"
    and i4: "\<not> str_includes (js ''switch to light mode'') (js ''dark mode'')"
    by (simp_all add: js_def)
  have d: "isDarkMode (fst (handleCommand sample_platform sample_io
        (js ''dark mode not light mode'') (initial_state\<lparr>isDarkMode := False\<rparr>))) = True"
    using display_mode [OF f1] i1 by blast
  have l: "isDarkMode (fst (handleCommand sample_platform sample_io (js ''switch to light mode'')
        initial_state)) = False
     \<and> spoken (fst (handleCommand sample_platform sample_io (js ''switch to light mode'')
        initial_state)) = spoken initial_state @
          (if isMuted initial_state \<or> synthesis sample_io = Failed then []
           else [js ''Switching to light mode''])"
    using display_mode [OF f2, of sample_platform sample_io initial_state] i3 i4 by blast
  have "spoken initial_state = [] \<and> \<not> isMuted initial_state \<and> synthesis sample_io \<noteq> Failed"
    by (simp add: initial_state_def sample_io_def)
  with l f1 f2 i1 i2 i3 i4 d show ?thesis by simp
qed




text \<open>
  C8. The mute rule toggles the mute flag, so two commands in succession on which
  the mute rule fires return the flag to its value before the first.
\<close>

theorem mute_involution:
  assumes "fires Mute m1" and "fires Mute m2"
  shows
    "isMuted (fst (handleCommand pf io1 m1 s)) = (\<not> isMuted s)
     \<and> isMuted (fst (handleCommand pf io2 m2 (fst (handleCommand pf io1 m1 s)))) = isMuted s"
  using handleCommand_dispatch [OF assms(1), of pf io1 s]
    handleCommand_dispatch [OF assms(2), of pf io2 "fst (handleCommand pf io1 m1 s)"]
  by (simp add: speak_frame command_beep_frame)

theorem mute_involution_witness:
  "fires Mute (js ''mute'') \<and> fires Mute (js ''unmute'')
   \<and> isMuted (fst (handleCommand sample_platform sample_io (js ''mute'') initial_state))
   \<and> \<not> isMuted (fst (handleCommand sample_platform sample_io (js ''unmute'')
          (fst (handleCommand sample_platform sample_io (js ''mute'') initial_state))))"
proof -
  have "\<not> isMuted initial_state" by (simp add: initial_state_def)
  then show ?thesis
    using fires_mute_example fires_unmute_example
      mute_involution [OF fires_mute_example fires_unmute_example,
        of sample_platform sample_io initial_state sample_io]
    by simp
qed




text \<open>
  C6. On every transcript that matches no rule the fallback fires: the whole
  transcript is URL-encoded into a Google search URL, that URL is opened, and the
  reply is the fixed text "I'm searching for information about your request". A
  transcript is text, a string without unpaired surrogates. The transcript "xyzzy"
  opens the search for "xyzzy".
\<close>

theorem fallback_search:
  assumes "\<forall>r. r \<noteq> Fallback \<longrightarrow> \<not> matches r m" and "well_formed m"
  shows
    "\<exists>q. encodeURIComponent m = Inr q
       \<and> handleCommand pf io m s =
           (speak pf io (isMuted s) (js ''I'm searching for information about your request'')
              ((command_beep s)
                 \<lparr>opened := opened s @ [js ''https://www.google.com/search?q='' @ q]\<rparr>),
            Completed)
       \<and> opened (fst (handleCommand pf io m s))
           = opened s @ [js ''https://www.google.com/search?q='' @ q]
       \<and> spoken (fst (handleCommand pf io m s))
           = spoken s @ (if isMuted s \<or> synthesis io = Failed then []
                         else [js ''I'm searching for information about your request''])"
proof -
  have f: "fires Fallback m" using assms(1) by (simp add: no_rule_iff_fallback)
  obtain q where q: "encodeURIComponent m = Inr q"
    using encodeURIComponent_total [OF assms(2)] by blast
  show ?thesis
    using handleCommand_dispatch [OF f, of pf io s] q
    by (simp add: open_encoded_def speak_frame speak_spoken command_beep_frame)
qed

theorem fallback_search_witness:
  "fires Fallback (js ''xyzzy'') \<and> well_formed (js ''xyzzy'')
   \<and> opened (fst (handleCommand sample_platform sample_io (js ''xyzzy'') initial_state))
       = [js ''https://www.google.com/search?q=xyzzy'']
   \<and> spoken (fst (handleCommand sample_platform sample_io (js ''xyzzy'') initial_state))
       = [js ''I'm searching for information about your request'']"
proof -
  have n: "\<forall>r. r \<noteq> Fallback \<longrightarrow> \<not> matches r (js ''xyzzy'')"
    unfolding all_rules by (simp add: js_def)
  have w: "well_formed (js ''xyzzy'')"
    by (simp add: js_def is_lead_surrogate_def is_trail_surrogate_def)
  have e: "encodeURIComponent (js ''xyzzy'') = Inr (js ''xyzzy'')"
    by (simp add: js_def uri_unreserved_def)
  have i: "opened initial_state = [] \<and> spoken initial_state = [] \<and> \<not> isMuted initial_state
      \<and> synthesis sample_io \<noteq> Failed"
    by (simp add: initial_state_def sample_io_def)
  have f: "fires Fallback (js ''xyzzy'')" using n by (simp add: no_rule_iff_fallback)
  show ?thesis
    using f w fallback_search [OF n w, of sample_platform sample_io initial_state] e i
    by (auto simp: js_append)
qed

text \<open>
  C7. When the weather rule fires, the transcript is some \<open>pre\<close>, the word
  "weather" and some \<open>post\<close>, with the word at its leftmost occurrence; the word is
  stripped, and the location is \<open>pre @ post\<close> trimmed, or "current location" when
  that is empty. The URL of a Google search for "weather+" and the URL-encoded
  location is opened, and the reply is "Checking weather for " and the location. A
  transcript is text, a string without unpaired surrogates.
\<close>

theorem weather_rule:
  assumes "fires Weather m" and "well_formed m"
  shows
    "\<exists>pre post location q.
       m = pre @ js ''weather'' @ post
       \<and> (\<forall>pre' post'. m = pre' @ js ''weather'' @ post' \<longrightarrow> length pre \<le> length pre')
       \<and> location =
           (if trim (pre @ post) = [] then js ''current location'' else trim (pre @ post))
       \<and> encodeURIComponent location = Inr q
       \<and> handleCommand pf io m s =
           (speak pf io (isMuted s) (js ''Checking weather for '' @ location)
              ((command_beep s)
                 \<lparr>opened := opened s @ [js ''https://www.google.com/search?q=weather+'' @ q]\<rparr>),
            Completed)
       \<and> opened (fst (handleCommand pf io m s))
           = opened s @ [js ''https://www.google.com/search?q=weather+'' @ q]
       \<and> spoken (fst (handleCommand pf io m s))
           = spoken s @ (if isMuted s \<or> synthesis io = Failed then []
                         else [js ''Checking weather for '' @ location])"
proof -
  have "str_includes m (js ''weather'')" using assms(1) by (simp add: fires_def)
  then obtain pre post where d: "m = pre @ js ''weather'' @ post"
    and rep: "replace_str m (js ''weather'') [] = pre @ [] @ post"
    and least: "\<forall>pre' post'. m = pre' @ js ''weather'' @ post' \<longrightarrow> length pre \<le> length pre'"
    using replace_str_first [of m "js ''weather''" "[]"] by blast
  define location where
    "location = (if trim (pre @ post) = [] then js ''current location'' else trim (pre @ post))"
  have "well_formed (pre @ post)"
    using assms(2) d weather_ascii well_formed_remove [of pre "js ''weather''" post] by simp
  then have "well_formed (trim (pre @ post))" by (rule well_formed_trim)
  then have "\<exists>q. encodeURIComponent location = Inr q"
    unfolding location_def using current_location_ok by (simp add: encodeURIComponent_total)
  then obtain q where q: "encodeURIComponent location = Inr q" by blast
  have "handleCommand pf io m s =
      (speak pf io (isMuted s) (js ''Checking weather for '' @ location)
         ((command_beep s)
            \<lparr>opened := opened s @ [js ''https://www.google.com/search?q=weather+'' @ q]\<rparr>),
       Completed)"
  proof -
    have loc: "(if trim (replace_str m (js ''weather'') []) = [] then js ''current location''
                else trim (replace_str m (js ''weather'') [])) = location"
      by (simp add: rep location_def)
    have "handleCommand pf io m s =
        open_encoded pf io (isMuted s) (js ''https://www.google.com/search?q=weather+'') location
          (js ''Checking weather for '' @ location) (command_beep s)"
      using handleCommand_dispatch [OF assms(1), of pf io s]
      by (simp only: rule_action.simps Let_def loc)
    then show ?thesis using q by (simp add: open_encoded_def command_beep_frame)
  qed
  then have "m = pre @ js ''weather'' @ post
       \<and> (\<forall>pre' post'. m = pre' @ js ''weather'' @ post' \<longrightarrow> length pre \<le> length pre')
       \<and> location =
           (if trim (pre @ post) = [] then js ''current location'' else trim (pre @ post))
       \<and> encodeURIComponent location = Inr q
       \<and> handleCommand pf io m s =
           (speak pf io (isMuted s) (js ''Checking weather for '' @ location)
              ((command_beep s)
                 \<lparr>opened := opened s @ [js ''https://www.google.com/search?q=weather+'' @ q]\<rparr>),
            Completed)
       \<and> opened (fst (handleCommand pf io m s))
           = opened s @ [js ''https://www.google.com/search?q=weather+'' @ q]
       \<and> spoken (fst (handleCommand pf io m s))
           = spoken s @ (if isMuted s \<or> synthesis io = Failed then []
                         else [js ''Checking weather for '' @ location])"
    using d least q location_def
    by (simp add: speak_frame speak_spoken command_beep_frame)
  then show ?thesis by (intro exI)
qed

theorem weather_rule_witness:
  "fires Weather (js ''weather in paris'') \<and> well_formed (js ''weather in paris'')
   \<and> opened (fst (handleCommand sample_platform sample_io (js ''weather in paris'')
        initial_state)) = [js ''https://www.google.com/search?q=weather+in%20paris'']
   \<and> spoken (fst (handleCommand sample_platform sample_io (js ''weather in paris'')
        initial_state)) = [js ''Checking weather for in paris'']"
proof -
  have w: "well_formed (js ''weather in paris'')" by (simp add: string_eval)
  obtain pre post location q where
    d: "js ''weather in paris'' = pre @ js ''weather'' @ post"
    and least: "\<forall>pre' post'. js ''weather in paris'' = pre' @ js ''weather'' @ post'
        \<longrightarrow> length pre \<le> length pre'"
    and loc: "location =
        (if trim (pre @ post) = [] then js ''current location'' else trim (pre @ post))"
    and q: "encodeURIComponent location = Inr q"
    and o: "opened (fst (handleCommand sample_platform sample_io (js ''weather in paris'')
        initial_state)) = opened initial_state @ [js ''https://www.google.com/search?q=weather+'' @ q]"
    and sp: "spoken (fst (handleCommand sample_platform sample_io (js ''weather in paris'')
        initial_state)) = spoken initial_state @
          (if isMuted initial_state \<or> synthesis sample_io = Failed then []
           else [js ''Checking weather for '' @ location])"
    using weather_rule [OF fires_weather_example w, of sample_platform sample_io initial_state]
    by blast
  have "js ''weather in paris'' = [] @ js ''weather'' @ js '' in paris''" by (simp add: js_def)
  with least have "length pre \<le> length ([]::jsstring)" by blast
  then have pre: "pre = []" by simp
  with d have "js ''weather'' @ js '' in paris'' = js ''weather'' @ post" by (simp add: js_def)
  then have post: "post = js '' in paris''" by simp
  have location: "location = js ''in paris''" unfolding loc pre post by (simp add: string_eval)
  have "encodeURIComponent (js ''in paris'') = Inr (js ''in%20paris'')"
    by (simp add: string_eval)
  with q location have "q = js ''in%20paris''" by simp
  then show ?thesis
    using fires_weather_example w o sp location
    by (simp add: initial_state_def sample_io_def js_append)
qed

text \<open>
  C5. When the "what is" rule fires, the transcript is some \<open>pre\<close>, a phrase and
  some \<open>post\<close>: the phrase is "what is", "who is" or "what are" up to the case of
  its letters (the phrase itself on a transcript in lower case), and no such phrase
  starts further left. The phrase is stripped, \<open>pre @ post\<close> trimmed is the query,
  the URL of a Google search for the URL-encoded query is opened, and the reply
  names the query. A transcript is text, a string without unpaired surrogates. On
  "what is the capital of france" the URL ends in
  \<^verbatim>\<open>the%20capital%20of%20france\<close>.
\<close>

theorem ask_rule:
  assumes "fires Ask m" and "well_formed m"
  shows
    "\<exists>pre ph post a q.
       m = pre @ ph @ post
       \<and> a \<in> set ask_phrases \<and> length ph = length a \<and> literal_matches_ci a ph
       \<and> ((\<forall>c\<in>set m. \<not> (0x41 \<le> c \<and> c \<le> 0x5A)) \<longrightarrow> ph = a)
       \<and> (\<forall>pre' ph' post' a'. m = pre' @ ph' @ post' \<and> a' \<in> set ask_phrases
             \<and> length ph' = length a' \<and> literal_matches_ci a' ph'
             \<longrightarrow> length pre \<le> length pre')
       \<and> encodeURIComponent (trim (pre @ post)) = Inr q
       \<and> handleCommand pf io m s =
           (speak pf io (isMuted s)
              (js ''I've found some information about '' @ trim (pre @ post)
                 @ js ''. Opening search results.'')
              ((command_beep s)
                 \<lparr>opened := opened s @ [js ''https://www.google.com/search?q='' @ q]\<rparr>),
            Completed)
       \<and> opened (fst (handleCommand pf io m s))
           = opened s @ [js ''https://www.google.com/search?q='' @ q]
       \<and> spoken (fst (handleCommand pf io m s))
           = spoken s @ (if isMuted s \<or> synthesis io = Failed then []
                         else [js ''I've found some information about '' @ trim (pre @ post)
                                 @ js ''. Opening search results.''])"
proof -
  have "matches Ask m" using assms(1) by (simp add: fires_def)
  then have "\<exists>a b. m = a @ b \<and> match_alternatives ask_phrases b \<noteq> None"
    by (rule matches_Ask_position)
  then obtain pre ph post a where d: "m = pre @ ph @ post" and a: "a \<in> set ask_phrases"
    and len: "length ph = length a" and lit: "literal_matches_ci a ph"
    and rep: "replace_regex m ask_phrases [] = pre @ [] @ post"
    and least: "\<forall>pre' b. m = pre' @ b \<and> match_alternatives ask_phrases b \<noteq> None
        \<longrightarrow> length pre \<le> length pre'"
    using replace_regex_first [of m ask_phrases "[]"] by blast
  have lower: "ph = a" if "\<forall>c\<in>set m. \<not> (0x41 \<le> c \<and> c \<le> 0x5A)"
  proof -
    from that d have "\<forall>c\<in>set ph. \<not> (0x41 \<le> c \<and> c \<le> 0x5A)" by simp
    then show ?thesis using literal_matches_lower [OF lit len] ask_phrases_lower [OF a] by blast
  qed
  have least': "length pre \<le> length pre'"
    if h: "m = pre' @ ph' @ post' \<and> a' \<in> set ask_phrases
             \<and> length ph' = length a' \<and> literal_matches_ci a' ph'" for pre' ph' post' a'
  proof -
    from h have "literal_matches_ci a' (ph' @ post')" by (simp add: literal_matches_ci_append)
    with h have "match_alternatives ask_phrases (ph' @ post') \<noteq> None"
      using match_alternatives_None by blast
    with h least show ?thesis by blast
  qed
  have "\<forall>c\<in>set ph. \<not> is_surrogate c"
    using literal_matches_ci_ascii [OF lit len] ascii_not_surrogate by blast
  then have "well_formed (pre @ post)"
    using assms(2) d well_formed_remove [of pre ph post] by simp
  then have "well_formed (trim (pre @ post))" by (rule well_formed_trim)
  then obtain q where q: "encodeURIComponent (trim (pre @ post)) = Inr q"
    using encodeURIComponent_total by blast
  have "handleCommand pf io m s =
      open_encoded pf io (isMuted s) (js ''https://www.google.com/search?q='')
        (trim (pre @ post))
        (js ''I've found some information about '' @ trim (pre @ post)
           @ js ''. Opening search results.'') (command_beep s)"
    using handleCommand_dispatch [OF assms(1), of pf io s] rep
    by (simp add: ask_phrases_def)
  then have hc: "handleCommand pf io m s =
      (speak pf io (isMuted s)
         (js ''I've found some information about '' @ trim (pre @ post)
            @ js ''. Opening search results.'')
         ((command_beep s)
            \<lparr>opened := opened s @ [js ''https://www.google.com/search?q='' @ q]\<rparr>),
       Completed)"
    using q by (simp add: open_encoded_def command_beep_frame)
  have o: "opened (fst (handleCommand pf io m s))
           = opened s @ [js ''https://www.google.com/search?q='' @ q]"
    unfolding hc by (simp add: speak_frame)
  have sp: "spoken (fst (handleCommand pf io m s))
           = spoken s @ (if isMuted s \<or> synthesis io = Failed then []
                         else [js ''I've found some information about '' @ trim (pre @ post)
                                 @ js ''. Opening search results.''])"
    unfolding hc by (simp add: speak_spoken command_beep_frame)
  have lo: "(\<forall>c\<in>set m. \<not> (0x41 \<le> c \<and> c \<le> 0x5A)) \<longrightarrow> ph = a"
    using lower by blast
  have le: "\<forall>pre' ph' post' a'. m = pre' @ ph' @ post' \<and> a' \<in> set ask_phrases
             \<and> length ph' = length a' \<and> literal_matches_ci a' ph'
             \<longrightarrow> length pre \<le> length pre'"
    using least' by blast
  have "m = pre @ ph @ post
       \<and> a \<in> set ask_phrases \<and> length ph = length a \<and> literal_matches_ci a ph
       \<and> ((\<forall>c\<in>set m. \<not> (0x41 \<le> c \<and> c \<le> 0x5A)) \<longrightarrow> ph = a)
       \<and> (\<forall>pre' ph' post' a'. m = pre' @ ph' @ post' \<and> a' \<in> set ask_phrases
             \<and> length ph' = length a' \<and> literal_matches_ci a' ph'
             \<longrightarrow> length pre \<le> length pre')
       \<and> encodeURIComponent (trim (pre @ post)) = Inr q
       \<and> handleCommand pf io m s =
           (speak pf io (isMuted s)
              (js ''I've found some information about '' @ trim (pre @ post)
                 @ js ''. Opening search results.'')
              ((command_beep s)
                 \<lparr>opened := opened s @ [js ''https://www.google.com/search?q='' @ q]\<rparr>),
            Completed)
       \<and> opened (fst (handleCommand pf io m s))
           = opened s @ [js ''https://www.google.com/search?q='' @ q]
       \<and> spoken (fst (handleCommand pf io m s))
           = spoken s @ (if isMuted s \<or> synthesis io = Failed then []
                         else [js ''I've found some information about '' @ trim (pre @ post)
                                 @ js ''. Opening search results.''])"
    by (intro conjI) (fact d a len lit lo le q hc o sp)+
  then show ?thesis by (intro exI)
qed

theorem ask_rule_witness:
  "fires Ask (js ''what is the capital of france'')
   \<and> well_formed (js ''what is the capital of france'')
   \<and> opened (fst (handleCommand sample_platform sample_io (js ''what is the capital of france'')
        initial_state)) = [js ''https://www.google.com/search?q=the%20capital%20of%20france'']
   \<and> spoken (fst (handleCommand sample_platform sample_io (js ''what is the capital of france'')
        initial_state))
       = [js ''I've found some information about the capital of france. Opening search results.'']"
proof -
  let ?m = "js ''what is the capital of france''"
  have w: "well_formed ?m" by (simp add: string_eval)
  obtain pre ph post a q where
    d: "?m = pre @ ph @ post"
    and a: "a \<in> set ask_phrases"
    and lower: "(\<forall>c\<in>set ?m. \<not> (0x41 \<le> c \<and> c \<le> 0x5A)) \<longrightarrow> ph = a"
    and least: "\<forall>pre' ph' post' a'. ?m = pre' @ ph' @ post' \<and> a' \<in> set ask_phrases
             \<and> length ph' = length a' \<and> literal_matches_ci a' ph'
             \<longrightarrow> length pre \<le> length pre'"
    and q: "encodeURIComponent (trim (pre @ post)) = Inr q"
    and o: "opened (fst (handleCommand sample_platform sample_io ?m initial_state))
        = opened initial_state @ [js ''https://www.google.com/search?q='' @ q]"
    and sp: "spoken (fst (handleCommand sample_platform sample_io ?m initial_state))
        = spoken initial_state @
          (if isMuted initial_state \<or> synthesis sample_io = Failed then []
           else [js ''I've found some information about '' @ trim (pre @ post)
                   @ js ''. Opening search results.''])"
    using ask_rule [OF fires_ask_example w, of sample_platform sample_io initial_state]
    by blast
  have "?m = [] @ js ''what is'' @ js '' the capital of france''
      \<and> js ''what is'' \<in> set ask_phrases
      \<and> length (js ''what is'') = length (js ''what is'')
      \<and> literal_matches_ci (js ''what is'') (js ''what is'')"
    by (simp add: ask_phrases_def js_def char_matches_ci_def)
  with least have "length pre \<le> length ([]::jsstring)" by blast
  then have pre: "pre = []" by simp
  have "\<forall>c\<in>set ?m. \<not> (0x41 \<le> c \<and> c \<le> 0x5A)" by (simp add: js_def)
  with lower have "ph = a" by blast
  with d pre have "?m = a @ post" by simp
  with a have post: "post = js '' the capital of france''"
    by (auto simp: ask_phrases_def js_def)
  have t: "trim (pre @ post) = js ''the capital of france''"
    unfolding pre post by (simp add: string_eval)
  have "encodeURIComponent (js ''the capital of france'') = Inr (js ''the%20capital%20of%20france'')"
    by (simp add: string_eval)
  with q t have "q = js ''the%20capital%20of%20france''" by simp
  then show ?thesis
    using fires_ask_example w o sp t
    by (simp add: initial_state_def sample_io_def js_append)
qed




end
